theory Spec2Isabelle
  imports Main "HOL-Library.Sublist"
begin

section \<open>The Lemmeric development server (dev-server.py)\<close>

text \<open>
  The handler receives the request target as a Python string decoded from ISO-8859-1,
  so every character is a code point below 256: an Isabelle \<open>char\<close>.
\<close>

subsection \<open>The regular expressions of \<open>do_GET\<close>\<close>

text \<open>
  The nine patterns use five constructs only: the anchor \<open>^\<close>, a literal, a captured
  greedy \<open>+\<close> over a character class, the optional character \<open>/?\<close> and the anchor
  \<open>$\<close>. \<open>re_run\<close> is the backtracking matcher of \<open>re.match\<close> over them: it starts
  at the beginning of the string, a greedy item tries its longest match first, and the
  string need not be consumed when the pattern ends. Without the MULTILINE flag
  \<open>$\<close> matches at the end of the string and just before a newline that ends the string.
\<close>

datatype re_item =
    Bos
  | Lit string
  | GroupPlus "char \<Rightarrow> bool"
  | Opt char
  | Eos

fun greedy :: "(nat \<Rightarrow> 'a option) \<Rightarrow> nat \<Rightarrow> 'a option" where
  "greedy f 0 = None"
| "greedy f (Suc n) = (case f (Suc n) of Some r \<Rightarrow> Some r | None \<Rightarrow> greedy f n)"

fun re_run :: "re_item list \<Rightarrow> nat \<Rightarrow> string \<Rightarrow> string list \<Rightarrow> string list option" where
  "re_run [] i s gs = Some gs"
| "re_run (Bos # rs) i s gs = (if i = 0 then re_run rs i s gs else None)"
| "re_run (Lit l # rs) i s gs =
     (if take (length l) s = l then re_run rs (i + length l) (drop (length l) s) gs
      else None)"
| "re_run (GroupPlus P # rs) i s gs =
     greedy (\<lambda>n. re_run rs (i + n) (drop n s) (gs @ [take n s]))
       (length (takeWhile P s))"
| "re_run (Opt c # rs) i s gs =
     (case (case s of [] \<Rightarrow> None
            | x # t \<Rightarrow> if x = c then re_run rs (Suc i) t gs else None) of
        Some r \<Rightarrow> Some r
      | None \<Rightarrow> re_run rs i s gs)"
| "re_run (Eos # rs) i s gs =
     (if s = [] \<or> s = [CHR 0x0A] then re_run rs i s gs else None)"

definition re_match :: "re_item list \<Rightarrow> string \<Rightarrow> string list option" where
  "re_match r s = re_run r 0 s []"

text \<open>\<open>m.group(1)\<close>: the text of the first group.\<close>

definition group1 :: "string list \<Rightarrow> string" where
  "group1 gs = (case gs of [] \<Rightarrow> [] | g # _ \<Rightarrow> g)"

text \<open>\<open>\d\<close> on code points below 256 is the ASCII digits; \<open>[^/?]\<close> is every other character.\<close>

definition is_digit :: "char \<Rightarrow> bool" where
  "is_digit c = (48 \<le> (of_char c :: nat) \<and> (of_char c :: nat) \<le> 57)"

definition not_slash_qmark :: "char \<Rightarrow> bool" where
  "not_slash_qmark c = (c \<noteq> CHR ''/'' \<and> c \<noteq> CHR ''?'')"

definition re_communities :: "re_item list" where
  "re_communities = [Bos, Lit ''/communities'', Opt CHR ''/'', Eos]"

definition re_post :: "re_item list" where
  "re_post = [Bos, Lit ''/post/'', GroupPlus is_digit, Opt CHR ''/'', Eos]"

definition re_u :: "re_item list" where
  "re_u = [Bos, Lit ''/u/'', GroupPlus not_slash_qmark, Opt CHR ''/'', Eos]"

definition re_c :: "re_item list" where
  "re_c = [Bos, Lit ''/c/'', GroupPlus not_slash_qmark, Opt CHR ''/'', Eos]"

definition re_search :: "re_item list" where
  "re_search = [Bos, Lit ''/search'', Opt CHR ''/'', Eos]"

definition re_create_post :: "re_item list" where
  "re_create_post = [Bos, Lit ''/create-post'', Opt CHR ''/'', Eos]"

definition re_create_community :: "re_item list" where
  "re_create_community = [Bos, Lit ''/create-community'', Opt CHR ''/'', Eos]"

definition re_inbox :: "re_item list" where
  "re_inbox = [Bos, Lit ''/inbox'', Opt CHR ''/'', Eos]"

definition re_settings :: "re_item list" where
  "re_settings = [Bos, Lit ''/settings'', Opt CHR ''/'', Eos]"

subsection \<open>\<open>urllib.parse.quote\<close>\<close>

text \<open>
  \<open>quote(s)\<close> with the default \<open>safe='/'\<close>: the string is encoded as UTF-8 (one byte
  below 128, two bytes from 128 to 255) and every byte that is not a letter, a digit, one
  of \<open>_.-~\<close> or \<open>/\<close> becomes \<open>%XX\<close> in upper-case hexadecimal.
\<close>

definition utf8 :: "char \<Rightarrow> nat list" where
  "utf8 c = (let n = (of_char c :: nat) in
     if n < 128 then [n] else [192 + n div 64, 128 + n mod 64])"

definition always_safe :: "nat \<Rightarrow> bool" where
  "always_safe b = ((65 \<le> b \<and> b \<le> 90) \<or> (97 \<le> b \<and> b \<le> 122) \<or> (48 \<le> b \<and> b \<le> 57)
     \<or> b = 95 \<or> b = 46 \<or> b = 45 \<or> b = 126)"

definition hex_digit :: "nat \<Rightarrow> char" where
  "hex_digit n = ''0123456789ABCDEF'' ! (n mod 16)"

definition quoter :: "nat \<Rightarrow> string" where
  "quoter b = (if always_safe b \<or> b = 47 then [char_of b]
     else [CHR ''%'', hex_digit (b div 16), hex_digit b])"

definition quote :: "string \<Rightarrow> string" where
  "quote s = concat (map quoter (concat (map utf8 s)))"

subsection \<open>The rewrite stage of \<open>do_GET\<close>\<close>

text \<open>
  \<open>do_GET_rewrite path query\<close> is the \<open>if\<close>/\<open>elif\<close> chain of \<open>do_GET\<close> on the path and
  the query of the parsed request target. \<open>Some (p, out)\<close>: a branch was taken, \<open>p\<close> is
  the new \<open>self.path\<close> and \<open>out\<close> the lines printed. \<open>None\<close>: no branch was taken,
  \<open>self.path\<close> is left as it was and nothing is printed. A Python string is true when
  it is not empty.
\<close>

definition do_GET_rewrite :: "string \<Rightarrow> string \<Rightarrow> (string \<times> string list) option" where
  "do_GET_rewrite path query =
    (if re_match re_communities path \<noteq> None then
       Some (if query \<noteq> [] then ''/communities.html?'' @ query else ''/communities.html'',
             [''DEV: Rewriting '' @ path @ '' -> /communities.html''])
     else case re_match re_post path of
       Some post_match \<Rightarrow>
         (let post_id = group1 post_match;
              new_query = ''id='' @ post_id;
              new_query = (if query \<noteq> [] then new_query @ ''&'' @ query else new_query)
          in Some (''/post.html?'' @ new_query,
                   [''DEV: Rewriting '' @ path @ '' -> /post.html?'' @ new_query]))
     | None \<Rightarrow>
     (case re_match re_u path of
       Some user_match \<Rightarrow>
         (let username = group1 user_match;
              new_query = ''username='' @ quote username;
              new_query = (if query \<noteq> [] then new_query @ ''&'' @ query else new_query)
          in Some (''/user.html?'' @ new_query,
                   [''DEV: Rewriting '' @ path @ '' -> /user.html?'' @ new_query]))
     | None \<Rightarrow>
     (case re_match re_c path of
       Some community_match \<Rightarrow>
         (let community_name = group1 community_match;
              new_query = ''name='' @ quote community_name;
              new_query = (if query \<noteq> [] then new_query @ ''&'' @ query else new_query)
          in Some (''/community.html?'' @ new_query,
                   [''DEV: Rewriting '' @ path @ '' -> /community.html?'' @ new_query]))
     | None \<Rightarrow>
     (if re_match re_search path \<noteq> None then
       Some (if query \<noteq> [] then ''/search.html?'' @ query else ''/search.html'',
             [''DEV: Rewriting '' @ path @ '' -> /search.html''])
     else if re_match re_create_post path \<noteq> None then
       Some (if query \<noteq> [] then ''/create_post.html?'' @ query else ''/create_post.html'',
             [''DEV: Rewriting '' @ path @ '' -> /create_post.html''])
     else if re_match re_create_community path \<noteq> None then
       Some (if query \<noteq> [] then ''/create-community.html?'' @ query
             else ''/create-community.html'',
             [''DEV: Rewriting '' @ path @ '' -> /create-community.html''])
     else if re_match re_inbox path \<noteq> None then
       Some (if query \<noteq> [] then ''/inbox.html?'' @ query else ''/inbox.html'',
             [''DEV: Rewriting '' @ path @ '' -> /inbox.html''])
     else if re_match re_settings path \<noteq> None then
       Some (if query \<noteq> [] then ''/settings.html?'' @ query else ''/settings.html'',
             [''DEV: Rewriting '' @ path @ '' -> /settings.html''])
     else if path = ''/'' then Some (''/index.html'', [])
     else None))))"

subsection \<open>\<open>urllib.parse.urlparse\<close>\<close>

text \<open>
  The library function that \<open>do_GET\<close> calls on the request target, as CPython 3.12
  defines it (\<open>urlsplit\<close>, then the split of the parameters of the last path segment).
  The checks of the network location that raise \<open>ValueError\<close> (unbalanced brackets, an
  invalid bracketed host, a host that changes under NFKC normalisation) depend on the
  network location only; they are the parameter \<open>netloc_rejected\<close>. An empty network
  location passes them all.
\<close>

datatype error = ValueError

record ParseResult =
  scheme :: string
  netloc :: string
  path :: string
  params :: string
  query :: string
  fragment :: string

definition lstrip_c0_or_space :: "string \<Rightarrow> string" where
  "lstrip_c0_or_space url = dropWhile (\<lambda>c. (of_char c :: nat) \<le> 32) url"

definition remove_unsafe_bytes :: "string \<Rightarrow> string" where
  "remove_unsafe_bytes url =
     filter (\<lambda>c. c \<noteq> CHR 0x09 \<and> c \<noteq> CHR 0x0D \<and> c \<noteq> CHR 0x0A) url"

definition is_ascii_alpha :: "char \<Rightarrow> bool" where
  "is_ascii_alpha c = (let n = (of_char c :: nat) in
     (65 \<le> n \<and> n \<le> 90) \<or> (97 \<le> n \<and> n \<le> 122))"

definition scheme_char :: "char \<Rightarrow> bool" where
  "scheme_char c = (is_ascii_alpha c \<or> is_digit c
     \<or> c = CHR ''+'' \<or> c = CHR ''-'' \<or> c = CHR ''.'')"

definition ascii_lower :: "char \<Rightarrow> char" where
  "ascii_lower c = (let n = (of_char c :: nat) in
     if 65 \<le> n \<and> n \<le> 90 then char_of (n + 32) else c)"

definition uses_params :: "string list" where
  "uses_params = ['''', ''ftp'', ''hdl'', ''prospero'', ''http'', ''imap'', ''https'',
     ''shttp'', ''rtsp'', ''rtsps'', ''rtspu'', ''sip'', ''sips'', ''mms'', ''sftp'',
     ''tel'']"

text \<open>The scheme: the text before the first colon, when it starts with a letter and holds scheme characters only.\<close>

definition split_scheme :: "string \<Rightarrow> string \<times> string" where
  "split_scheme url =
     (case url of
        [] \<Rightarrow> ('''', url)
      | c0 # _ \<Rightarrow>
          (let i = length (takeWhile (\<lambda>c. c \<noteq> CHR '':'') url) in
           if CHR '':'' \<in> set url \<and> 0 < i \<and> is_ascii_alpha c0 \<and> list_all scheme_char (take i url)
           then (map ascii_lower (take i url), drop (Suc i) url)
           else ('''', url)))"

text \<open>\<open>_splitnetloc(url, 2)\<close> after a leading \<open>//\<close>: up to the first of \<open>/ ? #\<close>.\<close>

definition split_netloc :: "string \<Rightarrow> string \<times> string" where
  "split_netloc url =
     (if take 2 url = ''//'' then
        (let rest = drop 2 url;
             n = length (takeWhile (\<lambda>c. c \<noteq> CHR ''/'' \<and> c \<noteq> CHR ''?'' \<and> c \<noteq> CHR ''#'') rest)
         in (take n rest, drop n rest))
      else ('''', url))"

text \<open>\<open>url.split(c, 1)\<close> when \<open>c\<close> occurs in \<open>url\<close>, and \<open>(url, '')\<close> when it does not.\<close>

definition split_at :: "char \<Rightarrow> string \<Rightarrow> string \<times> string" where
  "split_at c url =
     (if c \<in> set url then (takeWhile (\<lambda>x. x \<noteq> c) url, drop 1 (dropWhile (\<lambda>x. x \<noteq> c) url))
      else (url, ''''))"

text \<open>\<open>_splitparams\<close>, called when the path holds a semicolon: the split is at the first semicolon at or after the last slash.\<close>

definition splitparams :: "string \<Rightarrow> string \<times> string" where
  "splitparams url =
     (if CHR ''/'' \<in> set url then
        (let r = length url - 1 - length (takeWhile (\<lambda>x. x \<noteq> CHR ''/'') (rev url)) in
         if CHR '';'' \<in> set (drop r url) then
           (let i = r + length (takeWhile (\<lambda>x. x \<noteq> CHR '';'') (drop r url))
            in (take i url, drop (Suc i) url))
         else (url, ''''))
      else
        (let i = length (takeWhile (\<lambda>x. x \<noteq> CHR '';'') url)
         in (take i url, drop (Suc i) url)))"

definition urlparse :: "(string \<Rightarrow> bool) \<Rightarrow> string \<Rightarrow> error + ParseResult" where
  "urlparse netloc_rejected url0 =
     (let url = remove_unsafe_bytes (lstrip_c0_or_space url0);
          (sch, url) = split_scheme url;
          (nl, url) = split_netloc url
      in if nl \<noteq> [] \<and> netloc_rejected nl then Inl ValueError
         else
          (let (url, frag) = split_at CHR ''#'' url;
               (url, qry) = split_at CHR ''?'' url;
               (url, prm) = (if sch \<in> set uses_params \<and> CHR '';'' \<in> set url
                             then splitparams url else (url, ''''))
           in Inr \<lparr>scheme = sch, netloc = nl, path = url, params = prm,
                    query = qry, fragment = frag\<rparr>))"

subsection \<open>\<open>do_GET\<close>\<close>

text \<open>
  \<open>do_GET\<close> up to the call of the parent class: the request target is parsed, the chain
  sets \<open>self.path\<close> or leaves it, and the result is the \<open>self.path\<close> handed to the
  static file handler together with the lines printed. A \<open>ValueError\<close> of the parser
  leaves \<open>do_GET\<close>.
\<close>

definition do_GET :: "(string \<Rightarrow> bool) \<Rightarrow> string \<Rightarrow> error + (string \<times> string list)" where
  "do_GET netloc_rejected self_path =
     (case urlparse netloc_rejected self_path of
        Inl e \<Rightarrow> Inl e
      | Inr parsed_path \<Rightarrow>
          (case do_GET_rewrite (path parsed_path) (query parsed_path) of
             Some r \<Rightarrow> Inr r
           | None \<Rightarrow> Inr (self_path, [])))"

subsection \<open>The rule table of the specification\<close>

text \<open>
  The table of section 4.1 of the specification, as written there: ten rules in order,
  each a matcher and an action, evaluated top to bottom, the first match winning.
  It is compared with the chain of \<open>do_GET\<close> below.
\<close>

type_synonym rule =
  "(string \<Rightarrow> string list option) \<times> (string list \<Rightarrow> string \<Rightarrow> string \<Rightarrow> string \<times> string list)"

definition static_action :: "string \<Rightarrow> string list \<Rightarrow> string \<Rightarrow> string \<Rightarrow> string \<times> string list" where
  "static_action target gs p q =
     (if q \<noteq> [] then target @ ''?'' @ q else target,
      [''DEV: Rewriting '' @ p @ '' -> '' @ target])"

definition derived_action ::
  "string \<Rightarrow> string \<Rightarrow> (string \<Rightarrow> string) \<Rightarrow> string list \<Rightarrow> string \<Rightarrow> string \<Rightarrow> string \<times> string list" where
  "derived_action target param enc gs p q =
     (let d = target @ ''?'' @ param @ ''='' @ enc (group1 gs) @ (if q \<noteq> [] then ''&'' @ q else [])
      in (d, [''DEV: Rewriting '' @ p @ '' -> '' @ d]))"

definition root_match :: "string \<Rightarrow> string list option" where
  "root_match p = (if p = ''/'' then Some [] else None)"

definition root_action :: "string list \<Rightarrow> string \<Rightarrow> string \<Rightarrow> string \<times> string list" where
  "root_action gs p q = (''/index.html'', [])"

definition nine_patterns :: "re_item list list" where
  "nine_patterns = [re_communities, re_post, re_u, re_c, re_search, re_create_post,
     re_create_community, re_inbox, re_settings]"

definition rule_table :: "rule list" where
  "rule_table =
     [(re_match re_communities, static_action ''/communities.html''),
      (re_match re_post, derived_action ''/post.html'' ''id'' (\<lambda>s. s)),
      (re_match re_u, derived_action ''/user.html'' ''username'' quote),
      (re_match re_c, derived_action ''/community.html'' ''name'' quote),
      (re_match re_search, static_action ''/search.html''),
      (re_match re_create_post, static_action ''/create_post.html''),
      (re_match re_create_community, static_action ''/create-community.html''),
      (re_match re_inbox, static_action ''/inbox.html''),
      (re_match re_settings, static_action ''/settings.html''),
      (root_match, root_action)]"

fun apply_first :: "rule list \<Rightarrow> string \<Rightarrow> string \<Rightarrow> (string \<times> string list) option" where
  "apply_first [] p q = None"
| "apply_first ((m, a) # rs) p q =
     (case m p of Some gs \<Rightarrow> Some (a gs p q) | None \<Rightarrow> apply_first rs p q)"

subsection \<open>\<open>main\<close>: the port\<close>

text \<open>
  The first lines of \<open>main\<close>: the port handed to the TCP server and the lines printed
  before the server is created. \<open>int\<close> is the built-in conversion, a parameter here:
  \<open>None\<close> is its \<open>ValueError\<close>.
\<close>

definition main_port :: "(string \<Rightarrow> int option) \<Rightarrow> string list \<Rightarrow> int \<times> string list" where
  "main_port py_int argv =
     (let port = 8000 in
      if length argv > 1 then
        (case py_int (argv ! 1) of
           Some n \<Rightarrow> (n, [])
         | None \<Rightarrow> (port, [''Invalid port number. Using default port 8000.'']))
      else (port, []))"

text \<open>
  The decimal syntax of \<open>int(s)\<close> on strings of code points below 256: white space
  around, an optional sign, and digits in which single underscores may stand between two
  digits. (The interpreter's configurable limit on the number of digits is left out.)
\<close>

definition py_isspace :: "char \<Rightarrow> bool" where
  "py_isspace c = (let n = (of_char c :: nat) in
     (9 \<le> n \<and> n \<le> 13) \<or> (28 \<le> n \<and> n \<le> 32) \<or> n = 133 \<or> n = 160)"

definition strip :: "string \<Rightarrow> string" where
  "strip s = rev (dropWhile py_isspace (rev (dropWhile py_isspace s)))"

fun dec_digits :: "string \<Rightarrow> nat \<Rightarrow> nat option" where
  "dec_digits [] acc = Some acc"
| "dec_digits (c # cs) acc =
     (if is_digit c then dec_digits cs (10 * acc + (of_char c - 48))
      else if c = CHR ''_'' then
        (case cs of [] \<Rightarrow> None
         | d # _ \<Rightarrow> if is_digit d then dec_digits cs acc else None)
      else None)"

definition int_base10 :: "string \<Rightarrow> int option" where
  "int_base10 s =
     (let t = strip s;
          (neg, d) = (case t of [] \<Rightarrow> (False, t)
                      | c # r \<Rightarrow> if c = CHR ''-'' then (True, r)
                                 else if c = CHR ''+'' then (False, r) else (False, t))
      in case d of [] \<Rightarrow> None
         | c # _ \<Rightarrow> if is_digit c
                    then map_option (\<lambda>n. if neg then - int n else int n) (dec_digits d 0)
                    else None)"

subsection \<open>\<open>end_headers\<close>\<close>

text \<open>
  The handler state that the header methods touch. \<open>send_header\<close>, \<open>flush_headers\<close> and
  the parent's \<open>end_headers\<close> are those of \<open>BaseHTTPRequestHandler\<close>: a header line is
  buffered unless the field \<open>request_version\<close> is \<open>HTTP/0.9\<close>, and the parent's
  \<open>end_headers\<close> adds the empty line and writes the buffer out, again unless the field is
  \<open>HTTP/0.9\<close>. The field is \<open>HTTP/0.9\<close> for a request line of two words, and it still
  holds that default when \<open>parse_request\<close> answers a malformed request line or an
  unsupported version with an error, before it has stored the version.
\<close>

record handler =
  request_version :: string
  headers_buffer :: "string list"
  close_connection :: bool
  wfile :: string

definition send_header :: "string \<Rightarrow> string \<Rightarrow> handler \<Rightarrow> handler" where
  "send_header keyword val h =
     (let h1 = (if request_version h \<noteq> ''HTTP/0.9''
                then h\<lparr>headers_buffer :=
                         headers_buffer h @ [keyword @ '': '' @ val @ [CHR 0x0D, CHR 0x0A]]\<rparr>
                else h)
      in if map ascii_lower keyword = ''connection'' then
           (if map ascii_lower val = ''close'' then h1\<lparr>close_connection := True\<rparr>
            else if map ascii_lower val = ''keep-alive'' then h1\<lparr>close_connection := False\<rparr>
            else h1)
         else h1)"

definition flush_headers :: "handler \<Rightarrow> handler" where
  "flush_headers h = h\<lparr>wfile := wfile h @ concat (headers_buffer h), headers_buffer := []\<rparr>"

definition base_end_headers :: "handler \<Rightarrow> handler" where
  "base_end_headers h =
     (if request_version h \<noteq> ''HTTP/0.9''
      then flush_headers (h\<lparr>headers_buffer := headers_buffer h @ [[CHR 0x0D, CHR 0x0A]]\<rparr>)
      else h)"

definition end_headers :: "handler \<Rightarrow> handler" where
  "end_headers h =
     base_end_headers
       (send_header ''Access-Control-Allow-Headers'' ''*''
         (send_header ''Access-Control-Allow-Methods'' ''GET, POST, OPTIONS''
           (send_header ''Access-Control-Allow-Origin'' ''*'' h)))"

subsection \<open>Facts about the matcher\<close>

text \<open>What may follow the literal or the group: nothing or one slash, then the end or a final newline.\<close>

definition tail_ok :: "string \<Rightarrow> bool" where
  "tail_ok t = (t = [] \<or> t = [CHR 0x0A] \<or> t = ''/'' \<or> t = [CHR ''/'', CHR 0x0A])"

text \<open>The rule that a path can select at all, read off its first characters.\<close>

definition rule_index :: "string \<Rightarrow> nat option" where
  "rule_index p =
     (if p = ''/'' then Some 9
      else if prefix ''/communities'' p then Some 0
      else if prefix ''/post/'' p then Some 1
      else if prefix ''/u/'' p then Some 2
      else if prefix ''/c/'' p then Some 3
      else if prefix ''/search'' p then Some 4
      else if prefix ''/create-post'' p then Some 5
      else if prefix ''/create-community'' p then Some 6
      else if prefix ''/inbox'' p then Some 7
      else if prefix ''/settings'' p then Some 8
      else None)"

text \<open>The ten files that the rules name.\<close>

definition targets :: "string list" where
  "targets = [''/communities.html'', ''/post.html'', ''/user.html'', ''/community.html'',
     ''/search.html'', ''/create_post.html'', ''/create-community.html'', ''/inbox.html'',
     ''/settings.html'', ''/index.html'']"

lemma greedy_first: "0 < k \<Longrightarrow> f k = Some x \<Longrightarrow> greedy f k = Some x"
  by (cases k) auto

lemma greedy_none: "(\<And>n. 0 < n \<Longrightarrow> n \<le> k \<Longrightarrow> f n = None) \<Longrightarrow> greedy f k = None"
  by (induction k) auto

lemma re_run_tail: "re_run [Opt CHR ''/'', Eos] i t gs = (if tail_ok t then Some gs else None)"
  by (cases t) (auto simp: tail_ok_def)

lemma static_match:
  "re_match [Bos, Lit l, Opt CHR ''/'', Eos] p =
     (if take (length l) p = l \<and> tail_ok (drop (length l) p) then Some [] else None)"
proof -
  have "re_run [Bos, Lit l, Opt CHR ''/'', Eos] 0 p [] =
      (if take (length l) p = l
       then re_run [Opt CHR ''/'', Eos] (0 + length l) (drop (length l) p) [] else None)"
    by (simp only: re_run.simps(2,3) simp_thms if_True)
  then show ?thesis
    unfolding re_match_def
    by (cases "take (length l) p = l") (simp_all only: re_run_tail simp_thms if_True if_False)
qed

lemma capture_match:
  assumes P: "\<not> P CHR ''/''"
  shows "re_match [Bos, Lit l, GroupPlus P, Opt CHR ''/'', Eos] p =
     (if take (length l) p = l \<and> takeWhile P (drop (length l) p) \<noteq> []
         \<and> tail_ok (dropWhile P (drop (length l) p))
      then Some [takeWhile P (drop (length l) p)] else None)"
proof (cases "take (length l) p = l")
  case False
  then show ?thesis by (simp add: re_match_def)
next
  case True
  define s where "s = drop (length l) p"
  define k where "k = length (takeWhile P s)"
  define f where
    "f = (\<lambda>n. re_run [Opt CHR ''/'', Eos] (0 + length l + n) (drop n s) ([] @ [take n s]))"
  have run: "re_match [Bos, Lit l, GroupPlus P, Opt CHR ''/'', Eos] p = greedy f k"
    using True by (simp add: re_match_def s_def k_def f_def del: re_run.simps(5,6))
  have fn: "f n = (if tail_ok (drop n s) then Some [take n s] else None)" for n
    by (simp add: f_def re_run_tail del: re_run.simps)
  have dk: "drop k s = dropWhile P s" and tk: "take k s = takeWhile P s"
    unfolding k_def by (rule dropWhile_eq_drop[symmetric], rule takeWhile_eq_take[symmetric])
  show ?thesis
  proof (cases "takeWhile P s \<noteq> [] \<and> tail_ok (dropWhile P s)")
    case yes: True
    then have "0 < k" by (simp add: k_def)
    moreover have "f k = Some [takeWhile P s]" using yes by (simp add: fn dk tk)
    ultimately have "greedy f k = Some [takeWhile P s]" by (rule greedy_first)
    then show ?thesis using True yes run by (simp add: s_def)
  next
    case no: False
    have "f n = None" if n: "0 < n" "n \<le> k" for n
    proof (cases "n = k")
      case nk: True
      have "takeWhile P s \<noteq> []" using n nk by (auto simp: k_def)
      then have "\<not> tail_ok (dropWhile P s)" using no by simp
      then show ?thesis using nk by (simp add: fn dk)
    next
      case False
      then have lt: "n < k" using n by simp
      then have "n < length s" using length_takeWhile_le[of P s] by (simp add: k_def)
      then have ds: "drop n s = s ! n # drop (Suc n) s" by (simp add: Cons_nth_drop_Suc)
      have "P (s ! n)" using lt unfolding k_def by (metis nth_mem set_takeWhileD takeWhile_nth)
      then have ne: "s ! n \<noteq> CHR ''/''" using P by auto
      have "\<not> tail_ok (drop n s)"
      proof
        assume t: "tail_ok (drop n s)"
        then have "drop (Suc n) s = []" and "s ! n = CHR 0x0A"
          using ne ds by (auto simp: tail_ok_def)
        then have "Suc n = length s" using \<open>n < length s\<close> by simp
        then have "k = length s" using lt length_takeWhile_le[of P s] by (simp add: k_def)
        then have "dropWhile P s = []" using dk by simp
        moreover have "takeWhile P s \<noteq> []" using lt by (auto simp: k_def)
        ultimately show False using no by (simp add: tail_ok_def)
      qed
      then show ?thesis by (simp add: fn)
    qed
    then have "greedy f k = None" by (rule greedy_none)
    then show ?thesis using True no run by (auto simp: s_def)
  qed
qed

lemma take_drop_split: "(take (length l) p = l \<and> drop (length l) p = t) = (p = l @ t)"
  by (metis append_eq_conv_conj)

lemma static_some:
  "(re_match [Bos, Lit l, Opt CHR ''/'', Eos] p = Some gs) =
     (gs = [] \<and> (p = l \<or> p = l @ [CHR 0x0A] \<or> p = l @ ''/'' \<or> p = l @ [CHR ''/'', CHR 0x0A]))"
proof -
  have "(take (length l) p = l \<and> tail_ok (drop (length l) p)) =
     (p = l @ [] \<or> p = l @ [CHR 0x0A] \<or> p = l @ ''/'' \<or> p = l @ [CHR ''/'', CHR 0x0A])"
    unfolding tail_ok_def take_drop_split[symmetric] by blast
  then show ?thesis by (auto simp: static_match)
qed

lemma static_none:
  "(re_match [Bos, Lit l, Opt CHR ''/'', Eos] p = None) =
     (\<not> (p = l \<or> p = l @ [CHR 0x0A] \<or> p = l @ ''/'' \<or> p = l @ [CHR ''/'', CHR 0x0A]))"
  using static_some[of l p "[]"] static_some[of l p] by (cases "re_match [Bos, Lit l, Opt CHR ''/'', Eos] p") auto

lemma capture_iff:
  assumes P: "\<not> P CHR ''/''"
  shows "(re_match [Bos, Lit l, GroupPlus P, Opt CHR ''/'', Eos] p = Some gs) =
     (\<exists>g t. p = l @ g @ t \<and> g \<noteq> [] \<and> (\<forall>c\<in>set g. P c) \<and> gs = [g] \<and>
        (t = [] \<or> t = ''/'' \<or> t = [CHR ''/'', CHR 0x0A] \<or> (t = [CHR 0x0A] \<and> \<not> P CHR 0x0A)))"
  (is "?L = ?R")
proof
  assume ?L
  define s where "s = drop (length l) p"
  define g where "g = takeWhile P s"
  define t where "t = dropWhile P s"
  from \<open>?L\<close> have a: "take (length l) p = l" "g \<noteq> []" "tail_ok t" "gs = [g]"
    by (auto simp: capture_match[of P, OF P] s_def g_def t_def split: if_splits)
  have "p = l @ s" using a(1) by (simp add: s_def take_drop_split[symmetric])
  then have p: "p = l @ g @ t" by (simp add: g_def t_def)
  have all: "\<forall>c\<in>set g. P c" by (auto simp: g_def dest: set_takeWhileD)
  have nh: "t \<noteq> [] \<Longrightarrow> \<not> P (hd t)" unfolding t_def by (rule hd_dropWhile)
  have "t = [] \<or> t = ''/'' \<or> t = [CHR ''/'', CHR 0x0A] \<or> (t = [CHR 0x0A] \<and> \<not> P CHR 0x0A)"
    using a(3) nh by (auto simp: tail_ok_def)
  then show ?R using p a all by blast
next
  assume ?R
  then obtain g t where r: "p = l @ g @ t" "g \<noteq> []" "\<forall>c\<in>set g. P c" "gs = [g]"
    "t = [] \<or> t = ''/'' \<or> t = [CHR ''/'', CHR 0x0A] \<or> (t = [CHR 0x0A] \<and> \<not> P CHR 0x0A)"
    by blast
  have nh: "t = [] \<or> \<not> P (hd t)" using r(5) P by auto
  have tw: "takeWhile P (g @ t) = g" using r(3) nh
    by (simp add: takeWhile_eq_Nil_iff)
  have dw: "dropWhile P (g @ t) = t" using r(3) nh
    by (simp add: dropWhile_eq_self_iff)
  have "tail_ok t" using r(5) by (auto simp: tail_ok_def)
  then show ?L using r tw dw by (simp add: capture_match[of P, OF P])
qed

lemma capture_none:
  assumes P: "\<not> P CHR ''/''"
  shows "(re_match [Bos, Lit l, GroupPlus P, Opt CHR ''/'', Eos] p = None) =
     (\<not> (\<exists>g t. p = l @ g @ t \<and> g \<noteq> [] \<and> (\<forall>c\<in>set g. P c) \<and>
        (t = [] \<or> t = ''/'' \<or> t = [CHR ''/'', CHR 0x0A] \<or> (t = [CHR 0x0A] \<and> \<not> P CHR 0x0A))))"
proof (cases "re_match [Bos, Lit l, GroupPlus P, Opt CHR ''/'', Eos] p")
  case None
  then have "\<And>gs. re_match [Bos, Lit l, GroupPlus P, Opt CHR ''/'', Eos] p \<noteq> Some gs" by simp
  then show ?thesis unfolding capture_iff[of P, OF P] using None by blast
next
  case (Some gs)
  then show ?thesis using capture_iff[of P l p gs, OF P] by auto
qed

lemma digit_slash: "\<not> is_digit CHR ''/''" and digit_nl: "\<not> is_digit CHR 0x0A"
  and nsq_slash: "\<not> not_slash_qmark CHR ''/''" and nsq_nl: "not_slash_qmark CHR 0x0A"
  by (simp_all add: is_digit_def not_slash_qmark_def)

lemmas communities_some = static_some[of "''/communities''", folded re_communities_def, simplified]
lemmas search_some = static_some[of "''/search''", folded re_search_def, simplified]
lemmas create_post_some = static_some[of "''/create-post''", folded re_create_post_def, simplified]
lemmas create_community_some = static_some[of "''/create-community''", folded re_create_community_def, simplified]
lemmas inbox_some = static_some[of "''/inbox''", folded re_inbox_def, simplified]
lemmas settings_some = static_some[of "''/settings''", folded re_settings_def, simplified]
lemmas communities_none = static_none[of "''/communities''", folded re_communities_def, simplified]
lemmas search_none = static_none[of "''/search''", folded re_search_def, simplified]
lemmas create_post_none = static_none[of "''/create-post''", folded re_create_post_def, simplified]
lemmas create_community_none = static_none[of "''/create-community''", folded re_create_community_def, simplified]
lemmas inbox_none = static_none[of "''/inbox''", folded re_inbox_def, simplified]
lemmas settings_none = static_none[of "''/settings''", folded re_settings_def, simplified]
lemmas post_some = capture_iff[of is_digit "''/post/''", OF digit_slash, folded re_post_def, simplified digit_nl simp_thms]
lemmas u_some = capture_iff[of not_slash_qmark "''/u/''", OF nsq_slash, folded re_u_def, simplified nsq_nl simp_thms]
lemmas c_some = capture_iff[of not_slash_qmark "''/c/''", OF nsq_slash, folded re_c_def, simplified nsq_nl simp_thms]
lemmas post_none = capture_none[of is_digit "''/post/''", OF digit_slash, folded re_post_def, simplified digit_nl simp_thms]
lemmas u_none = capture_none[of not_slash_qmark "''/u/''", OF nsq_slash, folded re_u_def, simplified nsq_nl simp_thms]
lemmas c_none = capture_none[of not_slash_qmark "''/c/''", OF nsq_slash, folded re_c_def, simplified nsq_nl simp_thms]

lemmas static_somes = communities_some search_some create_post_some create_community_some inbox_some settings_some
lemmas static_nones = communities_none search_none create_post_none create_community_none inbox_none settings_none

lemmas act_defs = static_action_def derived_action_def root_match_def root_action_def Let_def

lemma chain_is_table: "do_GET_rewrite p q = apply_first rule_table p q"
  apply (simp only: do_GET_rewrite_def rule_table_def)
  apply (cases "re_match re_communities p"; simp add: act_defs split del: if_split)
  apply (cases "re_match re_post p"; simp add: act_defs split del: if_split)
  apply (cases "re_match re_u p"; simp add: act_defs split del: if_split)
  apply (cases "re_match re_c p"; simp add: act_defs split del: if_split)
  apply (cases "re_match re_search p"; simp add: act_defs split del: if_split)
  apply (cases "re_match re_create_post p"; simp add: act_defs split del: if_split)
  apply (cases "re_match re_create_community p"; simp add: act_defs split del: if_split)
  apply (cases "re_match re_inbox p"; simp add: act_defs split del: if_split)
  apply (cases "re_match re_settings p"; simp add: act_defs split del: if_split)
  apply (auto simp: act_defs)
  done

lemma length_rule_table: "length rule_table = 10"
  by (simp add: rule_table_def)

lemma below_ten: "i < 10 \<Longrightarrow> i = 0 \<or> i = 1 \<or> i = 2 \<or> i = 3 \<or> i = 4 \<or> i = 5 \<or> i = 6 \<or> i = 7 \<or> i = 8 \<or> i = (9::nat)"
  by arith

lemma fires_index:
  assumes "i < 10" "fst (rule_table ! i) p = Some gs"
  shows "rule_index p = Some i"
  using below_ten[OF assms(1)] assms(2)
  apply (elim disjE)
  apply (auto simp: rule_table_def rule_index_def static_somes post_some u_some c_some root_match_def split: if_splits)
  done

lemma apply_first_at:
  "i < length rs \<Longrightarrow> fst (rs ! i) p = Some gs \<Longrightarrow> (\<forall>j<i. fst (rs ! j) p = None) \<Longrightarrow>
   apply_first rs p q = Some (snd (rs ! i) gs p q)"
proof (induction rs arbitrary: i)
  case Nil
  then show ?case by simp
next
  case (Cons r rs)
  obtain m a where r: "r = (m, a)" by (cases r)
  show ?case
  proof (cases i)
    case 0
    then show ?thesis using Cons.prems r by simp
  next
    case (Suc k)
    have "m p = None" using Cons.prems(3) Suc r by force
    moreover have "apply_first rs p q = Some (snd (rs ! k) gs p q)"
      using Cons.prems Suc by (intro Cons.IH) auto
    ultimately show ?thesis using Suc r by simp
  qed
qed

lemma apply_first_none:
  "(\<forall>i<length rs. fst (rs ! i) p = None) \<Longrightarrow> apply_first rs p q = None"
proof (induction rs)
  case Nil
  then show ?case by simp
next
  case (Cons r rs)
  obtain m a where r: "r = (m, a)" by (cases r)
  have "m p = None" using Cons.prems r by force
  moreover have "apply_first rs p q = None" using Cons.prems by (intro Cons.IH) auto
  ultimately show ?case using r by simp
qed

lemma rewrite_by_rule:
  assumes "i < 10" "fst (rule_table ! i) p = Some gs"
  shows "do_GET_rewrite p q = Some (snd (rule_table ! i) gs p q)"
proof -
  have "fst (rule_table ! j) p = None" if "j < i" for j
  proof (cases "fst (rule_table ! j) p")
    case None then show ?thesis .
  next
    case (Some gs')
    then have "rule_index p = Some j" using fires_index[of j p gs'] that assms(1) by simp
    then show ?thesis using fires_index[OF assms] that by simp
  qed
  then show ?thesis
    unfolding chain_is_table using assms by (intro apply_first_at) (simp_all add: length_rule_table)
qed

subsection \<open>The chain and the table\<close>

lemma apply_first_None_iff: "(apply_first rs p q = None) = (\<forall>r\<in>set rs. fst r p = None)"
  by (induction rs) (auto split: option.splits)

lemma rewrite_None_iff:
  "(do_GET_rewrite p q = None) =
     (re_match re_communities p = None \<and> re_match re_post p = None \<and> re_match re_u p = None \<and>
      re_match re_c p = None \<and> re_match re_search p = None \<and> re_match re_create_post p = None \<and>
      re_match re_create_community p = None \<and> re_match re_inbox p = None \<and>
      re_match re_settings p = None \<and> p \<noteq> ''/'')"
  unfolding chain_is_table apply_first_None_iff by (simp add: rule_table_def root_match_def)

lemmas all_nones = static_nones post_none u_none c_none

lemma post_hit:
  assumes "n \<noteq> []" "\<forall>c\<in>set n. is_digit c" "p = ''/post/'' @ n \<or> p = ''/post/'' @ n @ ''/''"
  shows "re_match re_post p = Some [n]"
  unfolding post_some using assms by auto

lemma u_hit:
  assumes "n \<noteq> []" "\<forall>c\<in>set n. c \<noteq> CHR ''/'' \<and> c \<noteq> CHR ''?''" "p = ''/u/'' @ n \<or> p = ''/u/'' @ n @ ''/''"
  shows "re_match re_u p = Some [n]"
  unfolding u_some using assms by (auto simp: not_slash_qmark_def)

lemma c_hit:
  assumes "n \<noteq> []" "\<forall>c\<in>set n. c \<noteq> CHR ''/'' \<and> c \<noteq> CHR ''?''" "p = ''/c/'' @ n \<or> p = ''/c/'' @ n @ ''/''"
  shows "re_match re_c p = Some [n]"
  unfolding c_some using assms by (auto simp: not_slash_qmark_def)

lemma post_miss:
  assumes "\<exists>c\<in>set s. \<not> is_digit c \<and> c \<noteq> CHR ''/'' \<and> c \<noteq> CHR 0x0A"
  shows "do_GET_rewrite (''/post/'' @ s) q = None"
proof -
  have "re_match re_post (''/post/'' @ s) = None"
    unfolding post_none using assms by auto
  then show ?thesis by (simp add: rewrite_None_iff static_nones u_none c_none)
qed

lemma apply_first_Some:
  "apply_first rs p q = Some r \<Longrightarrow>
   \<exists>i gs. i < length rs \<and> fst (rs ! i) p = Some gs \<and> r = snd (rs ! i) gs p q"
proof (induction rs)
  case Nil
  then show ?case by simp
next
  case (Cons x rs)
  obtain m a where x: "x = (m, a)" by (cases x)
  show ?case
  proof (cases "m p")
    case None
    then have "apply_first rs p q = Some r" using Cons.prems x by simp
    then obtain i gs where "i < length rs" "fst (rs ! i) p = Some gs" "r = snd (rs ! i) gs p q"
      using Cons.IH by blast
    then have "Suc i < length (x # rs) \<and> fst ((x # rs) ! Suc i) p = Some gs
        \<and> r = snd ((x # rs) ! Suc i) gs p q" by simp
    then show ?thesis by blast
  next
    case (Some gs)
    then have "0 < length (x # rs) \<and> fst ((x # rs) ! 0) p = Some gs
        \<and> r = snd ((x # rs) ! 0) gs p q" using Cons.prems x by simp
    then show ?thesis by blast
  qed
qed

lemma rewrite_Some:
  assumes "do_GET_rewrite p q = Some r"
  shows "\<exists>i gs. i < 10 \<and> fst (rule_table ! i) p = Some gs \<and> r = snd (rule_table ! i) gs p q"
  using apply_first_Some[of rule_table p q r] assms
  by (simp add: chain_is_table length_rule_table)

lemma action_append:
  assumes "i < 9"
  shows "fst (snd (rule_table ! i) gs p q) =
     fst (snd (rule_table ! i) gs p []) @
       (if q = [] then []
        else (if CHR ''?'' \<in> set (fst (snd (rule_table ! i) gs p [])) then ''&'' else ''?'') @ q)"
proof -
  have "i = 0 \<or> i = 1 \<or> i = 2 \<or> i = 3 \<or> i = 4 \<or> i = 5 \<or> i = 6 \<or> i = 7 \<or> i = 8"
    using assms by arith
  then show ?thesis
    by (elim disjE) (simp_all add: rule_table_def static_action_def derived_action_def Let_def)
qed

subsection \<open>The parser on plain targets\<close>

lemma split_at_append:
  assumes "c \<notin> set b"
  shows "split_at c (b @ t) =
     (b @ takeWhile (\<lambda>x. x \<noteq> c) t, drop 1 (dropWhile (\<lambda>x. x \<noteq> c) t))"
proof (cases "c \<in> set t")
  case True
  have "\<And>x. x \<in> set b \<Longrightarrow> x \<noteq> c" using assms by auto
  then show ?thesis using True by (simp add: split_at_def)
next
  case False
  then have nt: "\<And>x. x \<in> set t \<Longrightarrow> x \<noteq> c" by auto
  have tw: "takeWhile (\<lambda>x. x \<noteq> c) t = t" using nt by (simp add: takeWhile_eq_all_conv)
  have dw: "dropWhile (\<lambda>x. x \<noteq> c) t = []" using nt by simp
  show ?thesis using assms False by (simp add: split_at_def tw dw)
qed

lemma urlparse_plain:
  assumes B: "B = CHR ''/'' # c # b" and c: "c \<noteq> CHR ''/''"
    and safe: "\<forall>x\<in>set B. x \<noteq> CHR 0x09 \<and> x \<noteq> CHR 0x0D \<and> x \<noteq> CHR 0x0A
        \<and> x \<noteq> CHR ''#'' \<and> x \<noteq> CHR ''?'' \<and> x \<noteq> CHR '';''"
    and t: "t = [] \<or> (\<exists>t'. t = CHR ''?'' # t')"
  shows "\<exists>qry frag. urlparse nr (B @ t) =
     Inr \<lparr>scheme = [], netloc = [], path = B, params = [], query = qry, fragment = frag\<rparr>"
proof -
  define t2 where "t2 = remove_unsafe_bytes t"
  define t3 where "t3 = takeWhile (\<lambda>x. x \<noteq> CHR ''#'') t2"
  have t2: "t2 = [] \<or> (\<exists>t'. t2 = CHR ''?'' # t')"
    using t by (auto simp: t2_def remove_unsafe_bytes_def)
  have t3: "t3 = [] \<or> (\<exists>t'. t3 = CHR ''?'' # t')"
    using t2 by (auto simp: t3_def)
  have s1: "lstrip_c0_or_space (B @ t) = B @ t"
    by (simp add: lstrip_c0_or_space_def B)
  have "filter (\<lambda>c. c \<noteq> CHR 0x09 \<and> c \<noteq> CHR 0x0D \<and> c \<noteq> CHR 0x0A) B = B"
    using safe by (simp add: filter_id_conv)
  then have s2: "remove_unsafe_bytes (B @ t) = B @ t2"
    by (simp add: remove_unsafe_bytes_def t2_def)
  have s3: "split_scheme (B @ t2) = ([], B @ t2)"
    by (simp add: split_scheme_def B is_ascii_alpha_def Let_def)
  have s4: "split_netloc (B @ t2) = ([], B @ t2)"
    using c by (simp add: split_netloc_def B)
  have h: "CHR ''#'' \<notin> set B" "CHR ''?'' \<notin> set B" "CHR '';'' \<notin> set B" using safe by auto
  have s5: "split_at CHR ''#'' (B @ t2) = (B @ t3, drop 1 (dropWhile (\<lambda>x. x \<noteq> CHR ''#'') t2))"
    unfolding t3_def by (rule split_at_append[OF h(1)])
  have "takeWhile (\<lambda>x. x \<noteq> CHR ''?'') t3 = []" using t3 by auto
  then have s6: "split_at CHR ''?'' (B @ t3) = (B, drop 1 (dropWhile (\<lambda>x. x \<noteq> CHR ''?'') t3))"
    using split_at_append[OF h(2), of t3] by simp
  show ?thesis
    unfolding urlparse_def by (simp add: s1 s2 s3 s4 s5 s6 h(3) Let_def)
qed

lemma urlparse_target:
  assumes "b \<in> set targets" "t = [] \<or> (\<exists>t'. t = CHR ''?'' # t')"
  shows "\<exists>qry frag. urlparse nr (b @ t) =
     Inr \<lparr>scheme = [], netloc = [], path = b, params = [], query = qry, fragment = frag\<rparr>"
proof -
  have "\<exists>c b'. b = CHR ''/'' # c # b' \<and> c \<noteq> CHR ''/''"
    using assms(1) by (auto simp: targets_def)
  then obtain c b' where b: "b = CHR ''/'' # c # b'" "c \<noteq> CHR ''/''" by blast
  have "\<forall>x\<in>set b. x \<noteq> CHR 0x09 \<and> x \<noteq> CHR 0x0D \<and> x \<noteq> CHR 0x0A
        \<and> x \<noteq> CHR ''#'' \<and> x \<noteq> CHR ''?'' \<and> x \<noteq> CHR '';''"
    using assms(1) by (auto simp: targets_def)
  then show ?thesis using urlparse_plain[OF b(1,2) _ assms(2)] by blast
qed

lemma target_no_rule:
  assumes "b \<in> set targets"
  shows "do_GET_rewrite b q = None"
  using assms by (auto simp: targets_def rewrite_None_iff all_nones)

lemma action_shape:
  assumes "i < 10"
  shows "\<exists>t. fst (snd (rule_table ! i) gs p q) = targets ! i @ t
      \<and> (t = [] \<or> (\<exists>t'. t = CHR ''?'' # t'))"
  using below_ten[OF assms]
  by (elim disjE)
     (simp_all add: rule_table_def targets_def static_action_def derived_action_def
        root_action_def Let_def)


lemma parse_communities:
  "urlparse (\<lambda>n. False) ''/communities?x=1'' =
     Inr \<lparr>scheme = [], netloc = [], path = ''/communities'', params = [], query = ''x=1'',
          fragment = []\<rparr>"
  by code_simp

subsection \<open>A trailing slash\<close>

lemma opt_eqI: "(\<And>y. (a = Some y) = (b = Some y)) \<Longrightarrow> a = b"
  by (cases a; cases b) auto

lemma snoc_facts:
  "(p @ [x] = l @ [y]) = (p = l \<and> x = y)"
  "(p @ [x] = l @ [z, y]) = (p = l @ [z] \<and> x = y)"
  by auto

lemma static_slash:
  assumes "p \<noteq> []" "last p \<noteq> CHR ''/''" "CHR 0x0A \<notin> set p" "l \<noteq> []" "last l \<noteq> CHR ''/''"
  shows "re_match [Bos, Lit l, Opt CHR ''/'', Eos] (p @ ''/'') =
         re_match [Bos, Lit l, Opt CHR ''/'', Eos] p"
proof (rule opt_eqI)
  fix y
  have 1: "p @ ''/'' \<noteq> l" using assms(5) by auto
  have 2: "p \<noteq> l @ [CHR 0x0A]" "p \<noteq> l @ [CHR ''/'', CHR 0x0A]" using assms(3) by auto
  have 3: "p \<noteq> l @ ''/''" using assms(2) by auto
  show "(re_match [Bos, Lit l, Opt CHR ''/'', Eos] (p @ ''/'') = Some y) =
        (re_match [Bos, Lit l, Opt CHR ''/'', Eos] p = Some y)"
    unfolding static_some using 1 2 3 by (simp add: snoc_facts)
qed

lemma capture_slash:
  assumes P: "\<not> P CHR ''/''" and p: "p \<noteq> []" "last p \<noteq> CHR ''/''" "CHR 0x0A \<notin> set p"
  shows "re_match [Bos, Lit l, GroupPlus P, Opt CHR ''/'', Eos] (p @ ''/'') =
         re_match [Bos, Lit l, GroupPlus P, Opt CHR ''/'', Eos] p"
proof (rule opt_eqI)
  fix y
  let ?M = "\<exists>g. p = l @ g \<and> g \<noteq> [] \<and> (\<forall>c\<in>set g. P c) \<and> y = [g]"
  have L: "(re_match [Bos, Lit l, GroupPlus P, Opt CHR ''/'', Eos] (p @ ''/'') = Some y) = ?M"
  proof
    assume "re_match [Bos, Lit l, GroupPlus P, Opt CHR ''/'', Eos] (p @ ''/'') = Some y"
    then obtain g t where r: "p @ ''/'' = l @ g @ t" "g \<noteq> []" "\<forall>c\<in>set g. P c" "y = [g]"
      "t = [] \<or> t = ''/'' \<or> t = [CHR ''/'', CHR 0x0A] \<or> (t = [CHR 0x0A] \<and> \<not> P CHR 0x0A)"
      unfolding capture_iff[of P, OF P] by blast
    have "t \<noteq> []"
    proof
      assume "t = []"
      then have "p @ [CHR ''/''] = (l @ butlast g) @ [last g]" using r(1,2) by simp
      then have "last g = CHR ''/''" unfolding append1_eq_conv by simp
      then show False using r(2,3) P last_in_set[of g] by auto
    qed
    moreover have "t \<noteq> [CHR ''/'', CHR 0x0A]"
    proof
      assume "t = [CHR ''/'', CHR 0x0A]"
      then have "p @ [CHR ''/''] = (l @ g @ [CHR ''/'']) @ [CHR 0x0A]" using r(1) by simp
      then show False unfolding append1_eq_conv by simp
    qed
    moreover have "t \<noteq> [CHR 0x0A]"
    proof
      assume "t = [CHR 0x0A]"
      then have "p @ [CHR ''/''] = (l @ g) @ [CHR 0x0A]" using r(1) by simp
      then show False unfolding append1_eq_conv by simp
    qed
    ultimately have "t = ''/''" using r(5) by blast
    then have "p @ [CHR ''/''] = (l @ g) @ [CHR ''/'']" using r(1) by simp
    then have "p = l @ g" unfolding append1_eq_conv by simp
    then show ?M using r by blast
  next
    assume ?M
    then obtain g where "p = l @ g" "g \<noteq> []" "\<forall>c\<in>set g. P c" "y = [g]" by blast
    then have "p @ ''/'' = l @ g @ ''/'' \<and> g \<noteq> [] \<and> (\<forall>c\<in>set g. P c) \<and> y = [g]" by simp
    then show "re_match [Bos, Lit l, GroupPlus P, Opt CHR ''/'', Eos] (p @ ''/'') = Some y"
      unfolding capture_iff[of P, OF P] by blast
  qed
  have R: "(re_match [Bos, Lit l, GroupPlus P, Opt CHR ''/'', Eos] p = Some y) = ?M"
  proof
    assume "re_match [Bos, Lit l, GroupPlus P, Opt CHR ''/'', Eos] p = Some y"
    then obtain g t where r: "p = l @ g @ t" "g \<noteq> []" "\<forall>c\<in>set g. P c" "y = [g]"
      "t = [] \<or> t = ''/'' \<or> t = [CHR ''/'', CHR 0x0A] \<or> (t = [CHR 0x0A] \<and> \<not> P CHR 0x0A)"
      unfolding capture_iff[of P, OF P] by blast
    have "t \<noteq> ''/''" using r(1) p(2) by auto
    moreover have "t \<noteq> [CHR ''/'', CHR 0x0A]" "t \<noteq> [CHR 0x0A]" using r(1) p(3) by auto
    ultimately have "t = []" using r(5) by blast
    then show ?M using r by simp
  next
    assume ?M
    then obtain g where "p = l @ g @ []" "g \<noteq> []" "\<forall>c\<in>set g. P c" "y = [g]" by auto
    then show "re_match [Bos, Lit l, GroupPlus P, Opt CHR ''/'', Eos] p = Some y"
      unfolding capture_iff[of P, OF P] by blast
  qed
  show "(re_match [Bos, Lit l, GroupPlus P, Opt CHR ''/'', Eos] (p @ ''/'') = Some y) =
        (re_match [Bos, Lit l, GroupPlus P, Opt CHR ''/'', Eos] p = Some y)"
    using L R by simp
qed

lemma slash_matches:
  assumes "p \<noteq> []" "last p \<noteq> CHR ''/''" "CHR 0x0A \<notin> set p"
  shows "re_match re_communities (p @ ''/'') = re_match re_communities p"
    and "re_match re_post (p @ ''/'') = re_match re_post p"
    and "re_match re_u (p @ ''/'') = re_match re_u p"
    and "re_match re_c (p @ ''/'') = re_match re_c p"
    and "re_match re_search (p @ ''/'') = re_match re_search p"
    and "re_match re_create_post (p @ ''/'') = re_match re_create_post p"
    and "re_match re_create_community (p @ ''/'') = re_match re_create_community p"
    and "re_match re_inbox (p @ ''/'') = re_match re_inbox p"
    and "re_match re_settings (p @ ''/'') = re_match re_settings p"
  unfolding re_communities_def re_post_def re_u_def re_c_def re_search_def re_create_post_def
    re_create_community_def re_inbox_def re_settings_def
  using assms
  by (simp_all add: static_slash capture_slash digit_slash nsq_slash del: re_run.simps)

lemma slash_optional_core:
  assumes "p \<noteq> []" "last p \<noteq> CHR ''/''" "CHR 0x0A \<notin> set p"
  shows "map_option fst (do_GET_rewrite (p @ ''/'') q) = map_option fst (do_GET_rewrite p q)"
proof -
  have r1: "p @ ''/'' \<noteq> ''/''" using assms(1) by simp
  have r2: "p \<noteq> ''/''" using assms(2) by auto
  show ?thesis
    unfolding do_GET_rewrite_def slash_matches[OF assms]
    apply (cases "re_match re_communities p"; simp add: Let_def r1 r2 assms(1) split del: if_split)
    apply (cases "re_match re_post p"; simp add: Let_def r1 r2 assms(1) split del: if_split)
    apply (cases "re_match re_u p"; simp add: Let_def r1 r2 assms(1) split del: if_split)
    apply (cases "re_match re_c p"; simp add: Let_def r1 r2 assms(1) split del: if_split)
    apply (cases "re_match re_search p"; simp add: Let_def r1 r2 assms(1) split del: if_split)
    apply (cases "re_match re_create_post p"; simp add: Let_def r1 r2 assms(1) split del: if_split)
    apply (cases "re_match re_create_community p"; simp add: Let_def r1 r2 assms(1) split del: if_split)
    apply (cases "re_match re_inbox p"; simp add: Let_def r1 r2 assms(1) split del: if_split)
    apply (cases "re_match re_settings p"; simp add: Let_def r1 r2 assms(1) split del: if_split)
    done
qed

lemma split_scheme_snd: "set (snd (split_scheme u)) \<subseteq> set u"
  by (auto simp: split_scheme_def Let_def split: list.splits dest: in_set_dropD)

lemma split_netloc_snd: "set (snd (split_netloc u)) \<subseteq> set u"
  by (auto simp: split_netloc_def Let_def dest: in_set_dropD)

lemma split_at_fst: "set (fst (split_at c u)) \<subseteq> set u"
  by (auto simp: split_at_def dest: set_takeWhileD)

lemma splitparams_fst: "set (fst (splitparams u)) \<subseteq> set u"
  by (auto simp: splitparams_def Let_def dest: in_set_takeD)

lemma urlparse_path_subset:
  assumes "urlparse nr raw = Inr r"
  shows "set (path r) \<subseteq> set (remove_unsafe_bytes (lstrip_c0_or_space raw))"
proof -
  define u0 where "u0 = remove_unsafe_bytes (lstrip_c0_or_space raw)"
  define u1 where "u1 = snd (split_scheme u0)"
  define u2 where "u2 = snd (split_netloc u1)"
  define u3 where "u3 = fst (split_at CHR ''#'' u2)"
  define u4 where "u4 = fst (split_at CHR ''?'' u3)"
  have "path r = u4 \<or> path r = fst (splitparams u4)"
    using assms unfolding urlparse_def u0_def u1_def u2_def u3_def u4_def
    by (auto simp: Let_def split_beta split: if_splits)
  moreover have "set u4 \<subseteq> set u0"
    unfolding u4_def u3_def u2_def u1_def
    using split_at_fst split_netloc_snd split_scheme_snd by (meson subset_trans)
  ultimately show ?thesis
    using splitparams_fst[of u4] unfolding u0_def by auto
qed

lemma urlparse_path_no_newline:
  assumes "urlparse nr raw = Inr r"
  shows "CHR 0x0A \<notin> set (path r)"
  using urlparse_path_subset[OF assms] by (auto simp: remove_unsafe_bytes_def)

subsection \<open>The rewrite rules\<close>

text \<open>
  Claim C1. A path \<open>/post/<N>\<close>, with or without one trailing slash, where \<open>N\<close> is a
  non-empty sequence of digits, is rewritten to \<open>/post.html?id=<N>\<close> when the query is
  empty and to \<open>/post.html?id=<N>&<query>\<close> when it is not. A path \<open>/post/<s>\<close> in which
  \<open>s\<close> holds a character that is neither a digit nor a slash nor a newline takes no
  branch at all; \<open>/post/12a\<close> is one.
\<close>

theorem post_rewrite:
  "(n \<noteq> [] \<and> (\<forall>c\<in>set n. is_digit c) \<and> (p = ''/post/'' @ n \<or> p = ''/post/'' @ n @ ''/'') \<longrightarrow>
      do_GET_rewrite p q =
        Some (''/post.html?id='' @ n @ (if q = [] then [] else ''&'' @ q),
              [''DEV: Rewriting '' @ p @ '' -> /post.html?id='' @ n
                 @ (if q = [] then [] else ''&'' @ q)]))
   \<and> ((\<exists>c\<in>set s. \<not> is_digit c \<and> c \<noteq> CHR ''/'' \<and> c \<noteq> CHR 0x0A) \<longrightarrow>
        do_GET_rewrite (''/post/'' @ s) q = None)
   \<and> do_GET_rewrite ''/post/12a'' q = None"
proof (intro conjI impI)
  assume a: "n \<noteq> [] \<and> (\<forall>c\<in>set n. is_digit c) \<and> (p = ''/post/'' @ n \<or> p = ''/post/'' @ n @ ''/'')"
  then have "re_match re_post p = Some [n]" by (intro post_hit) auto
  then have "fst (rule_table ! 1) p = Some [n]" by (simp add: rule_table_def)
  from rewrite_by_rule[OF _ this, of q]
  show "do_GET_rewrite p q =
        Some (''/post.html?id='' @ n @ (if q = [] then [] else ''&'' @ q),
              [''DEV: Rewriting '' @ p @ '' -> /post.html?id='' @ n
                 @ (if q = [] then [] else ''&'' @ q)])"
    by (simp add: rule_table_def derived_action_def group1_def Let_def)
next
  assume "\<exists>c\<in>set s. \<not> is_digit c \<and> c \<noteq> CHR ''/'' \<and> c \<noteq> CHR 0x0A"
  then show "do_GET_rewrite (''/post/'' @ s) q = None" by (rule post_miss)
next
  have "do_GET_rewrite (''/post/'' @ ''12a'') q = None"
    by (rule post_miss) (simp add: is_digit_def)
  then show "do_GET_rewrite ''/post/12a'' q = None" by simp
qed

theorem post_rewrite_witness:
  "do_GET_rewrite ''/post/123/'' ''a=1'' =
     Some (''/post.html?id=123&a=1'', [''DEV: Rewriting /post/123/ -> /post.html?id=123&a=1''])
   \<and> do_GET_rewrite ''/post/123'' [] =
     Some (''/post.html?id=123'', [''DEV: Rewriting /post/123 -> /post.html?id=123''])
   \<and> do_GET_rewrite ''/post/x7'' ''a=1'' = None"
  using post_rewrite[of "''123''" "''/post/123/''" "''a=1''" "''x7''"]
        post_rewrite[of "''123''" "''/post/123''" "[]" "''x7''"]
  by (simp add: is_digit_def)

text \<open>
  Claim C2. A path \<open>/u/<name>\<close>, with or without one trailing slash, where \<open>name\<close> is
  not empty and holds neither \<open>/\<close> nor \<open>?\<close>, is rewritten to
  \<open>/user.html?username=<quote name>\<close>, followed by \<open>&\<close> and the query when the query is
  not empty; \<open>/c/<name>\<close> likewise to \<open>/community.html?name=<quote name>\<close>.
\<close>

theorem name_rewrite:
  "(name \<noteq> [] \<and> (\<forall>c\<in>set name. c \<noteq> CHR ''/'' \<and> c \<noteq> CHR ''?'')
      \<and> (p = ''/u/'' @ name \<or> p = ''/u/'' @ name @ ''/'') \<longrightarrow>
      do_GET_rewrite p q =
        Some (''/user.html?username='' @ quote name @ (if q = [] then [] else ''&'' @ q),
              [''DEV: Rewriting '' @ p @ '' -> /user.html?username='' @ quote name
                 @ (if q = [] then [] else ''&'' @ q)]))
   \<and> (name \<noteq> [] \<and> (\<forall>c\<in>set name. c \<noteq> CHR ''/'' \<and> c \<noteq> CHR ''?'')
      \<and> (p = ''/c/'' @ name \<or> p = ''/c/'' @ name @ ''/'') \<longrightarrow>
      do_GET_rewrite p q =
        Some (''/community.html?name='' @ quote name @ (if q = [] then [] else ''&'' @ q),
              [''DEV: Rewriting '' @ p @ '' -> /community.html?name='' @ quote name
                 @ (if q = [] then [] else ''&'' @ q)]))"
proof (intro conjI impI)
  assume a: "name \<noteq> [] \<and> (\<forall>c\<in>set name. c \<noteq> CHR ''/'' \<and> c \<noteq> CHR ''?'')
      \<and> (p = ''/u/'' @ name \<or> p = ''/u/'' @ name @ ''/'')"
  then have "re_match re_u p = Some [name]" by (intro u_hit) auto
  then have "fst (rule_table ! 2) p = Some [name]" by (simp add: rule_table_def)
  from rewrite_by_rule[OF _ this, of q]
  show "do_GET_rewrite p q =
        Some (''/user.html?username='' @ quote name @ (if q = [] then [] else ''&'' @ q),
              [''DEV: Rewriting '' @ p @ '' -> /user.html?username='' @ quote name
                 @ (if q = [] then [] else ''&'' @ q)])"
    by (simp add: rule_table_def derived_action_def group1_def Let_def)
next
  assume a: "name \<noteq> [] \<and> (\<forall>c\<in>set name. c \<noteq> CHR ''/'' \<and> c \<noteq> CHR ''?'')
      \<and> (p = ''/c/'' @ name \<or> p = ''/c/'' @ name @ ''/'')"
  then have "re_match re_c p = Some [name]" by (intro c_hit) auto
  then have "fst (rule_table ! 3) p = Some [name]" by (simp add: rule_table_def)
  from rewrite_by_rule[OF _ this, of q]
  show "do_GET_rewrite p q =
        Some (''/community.html?name='' @ quote name @ (if q = [] then [] else ''&'' @ q),
              [''DEV: Rewriting '' @ p @ '' -> /community.html?name='' @ quote name
                 @ (if q = [] then [] else ''&'' @ q)])"
    by (simp add: rule_table_def derived_action_def group1_def Let_def)
qed

lemma quote_jane: "quote ''jane doe'' = ''jane%20doe''"
  by code_simp

lemma quote_amp: "quote ''a&b'' = ''a%26b''"
  by code_simp

theorem name_rewrite_witness:
  "do_GET_rewrite ''/u/jane doe'' [] =
     Some (''/user.html?username=jane%20doe'',
           [''DEV: Rewriting /u/jane doe -> /user.html?username=jane%20doe''])
   \<and> do_GET_rewrite ''/c/a&b/'' ''x=1'' =
     Some (''/community.html?name=a%26b&x=1'',
           [''DEV: Rewriting /c/a&b/ -> /community.html?name=a%26b&x=1''])"
  using name_rewrite[of "''jane doe''" "''/u/jane doe''" "[]"]
        name_rewrite[of "''a&b''" "''/c/a&b/''" "''x=1''"]
  by (simp add: quote_jane quote_amp)

text \<open>
  Claim C3 as stated also covers the branch for the root path. There the query is not in
  the new \<open>self.path\<close> at all.
\<close>

theorem query_preserved_counterexample:
  "do_GET_rewrite ''/'' ''a=1'' = Some (''/index.html'', []) \<and> \<not> suffix ''a=1'' ''/index.html''
   \<and> CHR ''='' \<notin> set ''/index.html''"
proof -
  have "fst (rule_table ! 9) ''/'' = Some []" by (simp add: rule_table_def root_match_def)
  from rewrite_by_rule[OF _ this, of "''a=1''"]
  have "do_GET_rewrite ''/'' ''a=1'' = Some (''/index.html'', [])"
    by (simp add: rule_table_def root_action_def)
  moreover have "\<not> suffix ''a=1'' ''/index.html''" by (simp add: suffix_to_prefix)
  ultimately show ?thesis by simp
qed

text \<open>
  Claim C3, amended. When one of the nine pretty-URL branches is taken (a branch is taken
  and the path is not \<open>/\<close>), the new \<open>self.path\<close> is the one the same path gets with an
  empty query, followed, when the query is not empty, by one separator and the query
  itself, unchanged: \<open>&\<close> after a derived parameter, \<open>?\<close> otherwise.
\<close>

theorem query_appended:
  "do_GET_rewrite p q = Some (d, out) \<and> p \<noteq> ''/'' \<longrightarrow>
     (\<exists>d0 out0. do_GET_rewrite p [] = Some (d0, out0) \<and>
        d = d0 @ (if q = [] then [] else (if CHR ''?'' \<in> set d0 then ''&'' else ''?'') @ q))"
proof
  assume a: "do_GET_rewrite p q = Some (d, out) \<and> p \<noteq> ''/''"
  then obtain i gs where i: "i < 10" "fst (rule_table ! i) p = Some gs"
      "(d, out) = snd (rule_table ! i) gs p q"
    using rewrite_Some[of p q "(d, out)"] by blast
  have "i \<noteq> 9" using i(2) a by (auto simp: rule_table_def root_match_def)
  then have i9: "i < 9" using i(1) by simp
  define r0 where "r0 = snd (rule_table ! i) gs p []"
  have "do_GET_rewrite p [] = Some (fst r0, snd r0)"
    using rewrite_by_rule[OF i(1,2), of "[]"] by (simp add: r0_def)
  moreover have "d = fst r0 @ (if q = [] then []
        else (if CHR ''?'' \<in> set (fst r0) then ''&'' else ''?'') @ q)"
    using action_append[OF i9, of gs p q] i(3)[symmetric] by (simp add: r0_def)
  ultimately show "\<exists>d0 out0. do_GET_rewrite p [] = Some (d0, out0) \<and>
        d = d0 @ (if q = [] then [] else (if CHR ''?'' \<in> set d0 then ''&'' else ''?'') @ q)"
    by blast
qed

theorem query_appended_witness:
  "do_GET_rewrite ''/search'' ''q=a&b=2'' =
      Some (''/search.html?q=a&b=2'', [''DEV: Rewriting /search -> /search.html''])
   \<and> do_GET_rewrite ''/search'' [] =
      Some (''/search.html'', [''DEV: Rewriting /search -> /search.html''])"
proof -
  have "fst (rule_table ! 4) ''/search'' = Some []"
    by (simp add: rule_table_def search_some)
  from rewrite_by_rule[OF _ this, of "''q=a&b=2''"] rewrite_by_rule[OF _ this, of "[]"]
  have b: "do_GET_rewrite ''/search'' ''q=a&b=2'' =
      Some (''/search.html?q=a&b=2'', [''DEV: Rewriting /search -> /search.html''])"
    and c: "do_GET_rewrite ''/search'' [] =
      Some (''/search.html'', [''DEV: Rewriting /search -> /search.html''])"
    by (simp_all add: rule_table_def static_action_def)
  show ?thesis
    using b c query_appended[of "''/search''" "''q=a&b=2''" "''/search.html?q=a&b=2''"
        "[''DEV: Rewriting /search -> /search.html'']"]
    by simp
qed

text \<open>
  Claim C4. When the path is exactly \<open>/\<close> and the query is not empty, the new
  \<open>self.path\<close> is \<open>/index.html\<close>: the query is not carried over.
\<close>

theorem root_drops_query:
  "q \<noteq> [] \<longrightarrow> do_GET_rewrite ''/'' q = Some (''/index.html'', [])"
proof
  have "fst (rule_table ! 9) ''/'' = Some []" by (simp add: rule_table_def root_match_def)
  from rewrite_by_rule[OF _ this, of q]
  show "do_GET_rewrite ''/'' q = Some (''/index.html'', [])"
    by (simp add: rule_table_def root_action_def)
qed

theorem root_drops_query_witness:
  "do_GET_rewrite ''/'' ''a=1'' = Some (''/index.html'', [])"
  using root_drops_query[of "''a=1''"] by simp

text \<open>
  Claim C5. Whatever branch is taken, handling the new \<open>self.path\<close> as a request target
  again takes no branch: it parses, its path matches no rule, and \<open>self.path\<close> stays as
  it is with nothing printed.
\<close>

theorem rewrite_twice:
  "do_GET_rewrite p q = Some (d, out) \<longrightarrow>
     (\<exists>r. urlparse nr d = Inr r \<and> do_GET_rewrite (path r) (query r) = None)
     \<and> do_GET nr d = Inr (d, [])"
proof
  assume "do_GET_rewrite p q = Some (d, out)"
  then obtain i gs where i: "i < 10" "(d, out) = snd (rule_table ! i) gs p q"
    using rewrite_Some[of p q "(d, out)"] by blast
  obtain t where t: "d = targets ! i @ t" "t = [] \<or> (\<exists>t'. t = CHR ''?'' # t')"
    using action_shape[OF i(1), of gs p q] i(2)[symmetric] by auto
  have mem: "targets ! i \<in> set targets" using i(1) by (intro nth_mem) (simp add: targets_def)
  obtain qry frag where u: "urlparse nr d =
     Inr \<lparr>scheme = [], netloc = [], path = targets ! i, params = [], query = qry, fragment = frag\<rparr>"
    using urlparse_target[OF mem t(2), of nr] t(1) by auto
  have n: "do_GET_rewrite (targets ! i) qry = None" by (rule target_no_rule[OF mem])
  show "(\<exists>r. urlparse nr d = Inr r \<and> do_GET_rewrite (path r) (query r) = None)
     \<and> do_GET nr d = Inr (d, [])"
    using u n by (simp add: do_GET_def)
qed

theorem rewrite_twice_witness:
  "do_GET_rewrite ''/post/123'' [] =
      Some (''/post.html?id=123'', [''DEV: Rewriting /post/123 -> /post.html?id=123''])
   \<and> do_GET (\<lambda>n. False) ''/post.html?id=123'' = Inr (''/post.html?id=123'', [])"
proof -
  have "re_match re_post ''/post/123'' = Some [''123'']"
    by (rule post_hit[of "''123''"]) (simp_all add: is_digit_def)
  then have "fst (rule_table ! 1) ''/post/123'' = Some [''123'']" by (simp add: rule_table_def)
  from rewrite_by_rule[OF _ this, of "[]"]
  have b: "do_GET_rewrite ''/post/123'' [] =
      Some (''/post.html?id=123'', [''DEV: Rewriting /post/123 -> /post.html?id=123''])"
    by (simp add: rule_table_def derived_action_def group1_def Let_def)
  show ?thesis
    using b rewrite_twice[of "''/post/123''" "[]" "''/post.html?id=123''"
        "[''DEV: Rewriting /post/123 -> /post.html?id=123'']" "\<lambda>n. False"]
    by simp
qed



text \<open>
  Claim C7. For a path that is not empty, does not end in a slash and holds no newline
  (no parsed request path holds one), each of the nine patterns matches the path with a
  slash appended exactly as it matches the path, with the same group, and the new
  \<open>self.path\<close> is the same for both.
\<close>

theorem trailing_slash_ignored:
  "(p \<noteq> [] \<and> last p \<noteq> CHR ''/'' \<and> CHR 0x0A \<notin> set p \<longrightarrow>
      (\<forall>x\<in>set nine_patterns. re_match x (p @ ''/'') = re_match x p)
      \<and> map_option fst (do_GET_rewrite (p @ ''/'') q) = map_option fst (do_GET_rewrite p q))
   \<and> (urlparse nr raw = Inr r \<and> path r \<noteq> [] \<and> last (path r) \<noteq> CHR ''/'' \<longrightarrow>
      map_option fst (do_GET_rewrite (path r @ ''/'') q)
        = map_option fst (do_GET_rewrite (path r) q))"
proof (intro conjI impI)
  assume a: "p \<noteq> [] \<and> last p \<noteq> CHR ''/'' \<and> CHR 0x0A \<notin> set p"
  then show "\<forall>x\<in>set nine_patterns. re_match x (p @ ''/'') = re_match x p"
    using slash_matches[of p] by (simp add: nine_patterns_def)
  show "map_option fst (do_GET_rewrite (p @ ''/'') q) = map_option fst (do_GET_rewrite p q)"
    using a by (intro slash_optional_core) simp_all
next
  assume a: "urlparse nr raw = Inr r \<and> path r \<noteq> [] \<and> last (path r) \<noteq> CHR ''/''"
  then have "CHR 0x0A \<notin> set (path r)" using urlparse_path_no_newline[of nr raw r] by simp
  then show "map_option fst (do_GET_rewrite (path r @ ''/'') q)
        = map_option fst (do_GET_rewrite (path r) q)"
    using a by (intro slash_optional_core) simp_all
qed

theorem trailing_slash_ignored_witness:
  "map_option fst (do_GET_rewrite ''/communities/'' ''x=1'') = Some ''/communities.html?x=1''
   \<and> map_option fst (do_GET_rewrite ''/communities'' ''x=1'') = Some ''/communities.html?x=1''
   \<and> re_match re_communities ''/communities/'' = re_match re_communities ''/communities''"
proof -
  have "fst (rule_table ! 0) ''/communities'' = Some []"
    by (simp add: rule_table_def communities_some)
  from rewrite_by_rule[OF _ this, of "''x=1''"]
  have b: "do_GET_rewrite ''/communities'' ''x=1'' =
      Some (''/communities.html?x=1'', [''DEV: Rewriting /communities -> /communities.html''])"
    by (simp add: rule_table_def static_action_def)
  show ?thesis
    using b parse_communities
      trailing_slash_ignored[of "''/communities''" "''x=1''" "\<lambda>n. False" "''/communities?x=1''"
        "\<lparr>scheme = [], netloc = [], path = ''/communities'', params = [], query = ''x=1'',
          fragment = []\<rparr>"]
    by (simp add: nine_patterns_def)
qed

text \<open>
  Claim C8. No path is matched by two rules of the table (the nine patterns and the root
  path), so the branch that the chain takes is the one rule that matches: the result is
  that rule's action, and the chain is the first-match evaluation of the table.
\<close>

theorem rules_disjoint:
  "(i < length rule_table \<and> j < length rule_table \<and> fst (rule_table ! i) p \<noteq> None
      \<and> fst (rule_table ! j) p \<noteq> None \<longrightarrow> i = j)
   \<and> (i < length rule_table \<and> fst (rule_table ! i) p = Some gs \<longrightarrow>
        do_GET_rewrite p q = Some (snd (rule_table ! i) gs p q))
   \<and> do_GET_rewrite p q = apply_first rule_table p q"
proof (intro conjI impI)
  assume a: "i < length rule_table \<and> j < length rule_table \<and> fst (rule_table ! i) p \<noteq> None
      \<and> fst (rule_table ! j) p \<noteq> None"
  then obtain g1 g2 where "fst (rule_table ! i) p = Some g1" "fst (rule_table ! j) p = Some g2"
    by auto
  then have "rule_index p = Some i" "rule_index p = Some j"
    using a fires_index[of i p g1] fires_index[of j p g2] by (simp_all add: length_rule_table)
  then show "i = j" by simp
next
  assume "i < length rule_table \<and> fst (rule_table ! i) p = Some gs"
  then show "do_GET_rewrite p q = Some (snd (rule_table ! i) gs p q)"
    using rewrite_by_rule[of i p gs q] by (simp add: length_rule_table)
next
  show "do_GET_rewrite p q = apply_first rule_table p q" by (rule chain_is_table)
qed

theorem rules_disjoint_witness:
  "fst (rule_table ! 2) ''/u/jane'' = Some [''jane'']
   \<and> fst (rule_table ! 0) ''/u/jane'' = None
   \<and> fst (rule_table ! 3) ''/u/jane'' = None
   \<and> do_GET_rewrite ''/u/jane'' [] =
       Some (''/user.html?username=jane'', [''DEV: Rewriting /u/jane -> /user.html?username=jane''])"
proof -
  have m: "fst (rule_table ! 2) ''/u/jane'' = Some [''jane'']"
    using u_hit[of "''jane''" "''/u/jane''"] by (simp add: rule_table_def)
  have q: "quote ''jane'' = ''jane''" by code_simp
  have l: "(2::nat) < length rule_table" "(0::nat) < length rule_table" "(3::nat) < length rule_table"
    by (simp_all add: length_rule_table)
  show ?thesis
    using m l rules_disjoint[of 0 2 "''/u/jane''" "[''jane'']" "[]"]
      rules_disjoint[of 3 2 "''/u/jane''" "[''jane'']" "[]"]
      rules_disjoint[of 2 2 "''/u/jane''" "[''jane'']" "[]"]
    by (simp add: rule_table_def derived_action_def group1_def Let_def q)
qed

subsection \<open>The port\<close>

text \<open>
  Claim C9. When the first argument is there and \<open>int\<close> raises \<open>ValueError\<close> on it,
  the warning is printed and the port is 8000; with no argument the port is 8000 and
  nothing is printed.
\<close>

theorem main_port_default:
  "(1 < length argv \<and> py_int (argv ! 1) = None \<longrightarrow>
      main_port py_int argv = (8000, [''Invalid port number. Using default port 8000.'']))
   \<and> (length argv \<le> 1 \<longrightarrow> main_port py_int argv = (8000, []))"
  by (simp add: main_port_def)

lemma int_abc: "int_base10 ''abc'' = None"
  by code_simp

lemma int_8080: "int_base10 '' 8_080 '' = Some 8080"
  by code_simp

theorem main_port_default_witness:
  "main_port int_base10 [''dev-server.py'', ''abc''] =
      (8000, [''Invalid port number. Using default port 8000.''])
   \<and> main_port int_base10 [''dev-server.py''] = (8000, [])"
  using main_port_default[of "[''dev-server.py'', ''abc'']" int_base10]
        main_port_default[of "[''dev-server.py'']" int_base10]
  by (simp add: int_abc)

subsection \<open>The cross-origin headers\<close>

lemma map_neq_length: "length xs \<noteq> length ys \<Longrightarrow> map f xs \<noteq> ys"
  by auto

text \<open>
  Claim C10, amended. Whenever \<open>end_headers\<close> runs while the handler's field
  \<open>request_version\<close> is not \<open>HTTP/0.9\<close>, it writes the buffered status line and
  headers, whatever they are, then the three cross-origin headers, then the empty line;
  the connection flag is untouched. While the field is \<open>HTTP/0.9\<close> it writes nothing
  and leaves the handler as it is.
\<close>

theorem cors_headers:
  "(request_version h \<noteq> ''HTTP/0.9'' \<longrightarrow>
     wfile (end_headers h) =
       wfile h @ concat (headers_buffer h)
         @ ''Access-Control-Allow-Origin: *'' @ [CHR 0x0D, CHR 0x0A]
         @ ''Access-Control-Allow-Methods: GET, POST, OPTIONS'' @ [CHR 0x0D, CHR 0x0A]
         @ ''Access-Control-Allow-Headers: *'' @ [CHR 0x0D, CHR 0x0A]
         @ [CHR 0x0D, CHR 0x0A]
     \<and> headers_buffer (end_headers h) = []
     \<and> close_connection (end_headers h) = close_connection h)
   \<and> (request_version h = ''HTTP/0.9'' \<longrightarrow> end_headers h = h)"
  by (simp add: end_headers_def send_header_def base_end_headers_def flush_headers_def
        map_neq_length Let_def)

theorem cors_headers_witness:
  "wfile (end_headers \<lparr>request_version = ''HTTP/1.1'',
       headers_buffer = [''HTTP/1.0 404 File not found'' @ [CHR 0x0D, CHR 0x0A]],
       close_connection = False, wfile = []\<rparr>) =
     ''HTTP/1.0 404 File not found'' @ [CHR 0x0D, CHR 0x0A]
       @ ''Access-Control-Allow-Origin: *'' @ [CHR 0x0D, CHR 0x0A]
       @ ''Access-Control-Allow-Methods: GET, POST, OPTIONS'' @ [CHR 0x0D, CHR 0x0A]
       @ ''Access-Control-Allow-Headers: *'' @ [CHR 0x0D, CHR 0x0A]
       @ [CHR 0x0D, CHR 0x0A]
   \<and> wfile (end_headers \<lparr>request_version = ''HTTP/0.9'', headers_buffer = [],
       close_connection = True, wfile = ''sent before''\<rparr>) = ''sent before''"
  using cors_headers[of "\<lparr>request_version = ''HTTP/1.1'',
       headers_buffer = [''HTTP/1.0 404 File not found'' @ [CHR 0x0D, CHR 0x0A]],
       close_connection = False, wfile = []\<rparr>"]
    cors_headers[of "\<lparr>request_version = ''HTTP/0.9'', headers_buffer = [],
       close_connection = True, wfile = ''sent before''\<rparr>"]
  by simp

text \<open>
  With the field \<open>request_version\<close> at \<open>HTTP/0.9\<close> (a request line of two words such
  as \<open>GET /\<close>, or an error that \<open>parse_request\<close> sends before it has stored the version,
  as for \<open>GET / HTTP/2.0\<close>) the three calls of \<open>send_header\<close> buffer nothing and nothing
  is written: the handler state is unchanged, and that response has no header.
\<close>

theorem cors_headers_counterexample:
  "end_headers \<lparr>request_version = ''HTTP/0.9'', headers_buffer = [],
       close_connection = True, wfile = []\<rparr>
   = \<lparr>request_version = ''HTTP/0.9'', headers_buffer = [], close_connection = True, wfile = []\<rparr>"
  by (simp add: end_headers_def send_header_def base_end_headers_def flush_headers_def
        map_neq_length Let_def)

end
